theory Spec2Isabelle
  imports Main "HOL-Library.Sublist"
begin

section \<open>Python values and errors\<close>

text \<open>
  The exceptions the modelled code can raise, and the Python values that the loosely typed
  parameters of \<^verbatim>\<open>main.py\<close> can hold.
\<close>

datatype error = IndexError | TypeError | ValueError

datatype pyval = PyNone | PyBool bool | PyInt int | PyStr string

text \<open>Truth value of a Python object, as \<^verbatim>\<open>if\<close> tests it.\<close>

fun truthy :: "pyval \<Rightarrow> bool" where
  "truthy PyNone = False"
| "truthy (PyBool b) = b"
| "truthy (PyInt n) = (n \<noteq> 0)"
| "truthy (PyStr s) = (s \<noteq> [])"

text \<open>\<^verbatim>\<open>a or b\<close> yields \<^verbatim>\<open>a\<close> when it is truthy and \<^verbatim>\<open>b\<close> otherwise.\<close>

definition py_or :: "pyval \<Rightarrow> pyval \<Rightarrow> pyval" where
  "py_or a b = (if truthy a then a else b)"

text \<open>\<^verbatim>\<open>s[i]\<close> for a non-negative index: raises \<^verbatim>\<open>IndexError\<close> out of range.\<close>

definition py_getitem :: "string \<Rightarrow> nat \<Rightarrow> error + char" where
  "py_getitem s i = (if i < length s then Inr (s ! i) else Inl IndexError)"

text \<open>\<^verbatim>\<open>s[lo:hi]\<close> for non-negative bounds: clamps to the string, never raises.\<close>

definition py_slice :: "string \<Rightarrow> nat \<Rightarrow> nat \<Rightarrow> string" where
  "py_slice s lo hi = take (hi - lo) (drop lo s)"

text \<open>
  A \<^verbatim>\<open>for\<close> loop over a list of indices, threading the loop's state; an exception
  raised by the body ends the loop.
\<close>

fun for_loop :: "nat list \<Rightarrow> (nat \<Rightarrow> 'st \<Rightarrow> error + 'st) \<Rightarrow> 'st \<Rightarrow> error + 'st" where
  "for_loop [] f st = Inr st"
| "for_loop (k # ks) f st =
     (case f k st of Inl e \<Rightarrow> Inl e | Inr st' \<Rightarrow> for_loop ks f st')"

section \<open>The longest span between two marker characters (test.py)\<close>

text \<open>
  \<^verbatim>\<open>
  def findLongestSubStringThatContainsTwoCharacters(string, c1, c2):
    longest = ""
    for i in range(len(string)):
      for j in range(i+1, len(string)):
        if string[i] == c1 and string[j] == c2:
          if len(string[i:j+1]) > len(longest):
            longest = string[i:j+1]
    return longest
  \<close>
  The state of both loops is the variable \<^verbatim>\<open>longest\<close>. The test
  \<^verbatim>\<open>string[i] == c1 and string[j] == c2\<close> reads \<^verbatim>\<open>string[j]\<close> only when the
  first comparison holds.
\<close>

definition span_body :: "string \<Rightarrow> char \<Rightarrow> char \<Rightarrow> nat \<Rightarrow> nat \<Rightarrow> string \<Rightarrow> error + string" where
  "span_body s c1 c2 i j longest =
     (case py_getitem s i of
        Inl e \<Rightarrow> Inl e
      | Inr a \<Rightarrow>
          if a = c1 then
            (case py_getitem s j of
               Inl e \<Rightarrow> Inl e
             | Inr b \<Rightarrow>
                 if b = c2 then
                   (if length (py_slice s i (j + 1)) > length longest
                    then Inr (py_slice s i (j + 1))
                    else Inr longest)
                 else Inr longest)
          else Inr longest)"

definition span_inner :: "string \<Rightarrow> char \<Rightarrow> char \<Rightarrow> nat \<Rightarrow> string \<Rightarrow> error + string" where
  "span_inner s c1 c2 i longest = for_loop [i + 1 ..< length s] (span_body s c1 c2 i) longest"

definition findLongestSubStringThatContainsTwoCharacters ::
  "string \<Rightarrow> char \<Rightarrow> char \<Rightarrow> error + string" where
  "findLongestSubStringThatContainsTwoCharacters s c1 c2 =
     for_loop [0 ..< length s] (span_inner s c1 c2) []"

text \<open>
  A candidate span: indices \<open>i < j\<close> inside the string with the start marker at \<open>i\<close> and
  the end marker at \<open>j\<close>.
\<close>

definition valid_span :: "string \<Rightarrow> char \<Rightarrow> char \<Rightarrow> nat \<Rightarrow> nat \<Rightarrow> bool" where
  "valid_span s c1 c2 i j \<longleftrightarrow> i < j \<and> j < length s \<and> s ! i = c1 \<and> s ! j = c2"

text \<open>
  The pairs \<open>(i, j)\<close> in the order in which the two loops visit them: \<open>i\<close> ascending, and
  for each \<open>i\<close> the index \<open>j\<close> ascending from \<open>i + 1\<close>.
\<close>

definition span_pairs :: "nat \<Rightarrow> (nat \<times> nat) list" where
  "span_pairs n = concat (map (\<lambda>i. map (\<lambda>j. (i, j)) [i + 1 ..< n]) [0 ..< n])"

text \<open>
  The first pair of that order that is a candidate span of maximal length, if there is one.
\<close>

definition first_longest :: "string \<Rightarrow> char \<Rightarrow> char \<Rightarrow> (nat \<times> nat) option" where
  "first_longest s c1 c2 =
     List.find (\<lambda>(i, j). valid_span s c1 c2 i j \<and>
                  (\<forall>(i', j') \<in> set (span_pairs (length s)).
                      valid_span s c1 c2 i' j' \<longrightarrow> j' - i' \<le> j - i))
       (span_pairs (length s))"

text \<open>
  The loop invariant: among the pairs selected by \<open>P\<close> (those visited so far), no candidate
  span is longer than \<open>r\<close>, and \<open>r\<close> is empty or one of these candidate spans.
\<close>

definition best_among :: "(nat \<Rightarrow> nat \<Rightarrow> bool) \<Rightarrow> string \<Rightarrow> char \<Rightarrow> char \<Rightarrow> string \<Rightarrow> bool" where
  "best_among P s c1 c2 r \<longleftrightarrow>
     (\<forall>i j. P i j \<and> valid_span s c1 c2 i j \<longrightarrow> j + 1 - i \<le> length r) \<and>
     (r = [] \<or> (\<exists>i j. P i j \<and> valid_span s c1 c2 i j \<and> r = py_slice s i (j + 1)))"

section \<open>The one-pass alternative of the specification\<close>





section \<open>The string helpers (main.py)\<close>

subsection \<open>Built-in operations\<close>

text \<open>
  \<^verbatim>\<open>s[:n]\<close>: \<^verbatim>\<open>None\<close> takes the whole string, a negative bound counts from the
  end, a Boolean is the integer 0 or 1, and a string bound raises \<^verbatim>\<open>TypeError\<close>.
\<close>

definition py_slice_to :: "string \<Rightarrow> pyval \<Rightarrow> error + string" where
  "py_slice_to s n =
     (case n of
        PyNone \<Rightarrow> Inr s
      | PyBool b \<Rightarrow> Inr (take (if b then 1 else 0) s)
      | PyInt k \<Rightarrow> Inr (if k < 0 then take (nat (int (length s) + k)) s else take (nat k) s)
      | PyStr t \<Rightarrow> Inl TypeError)"

text \<open>
  \<^verbatim>\<open>int(v)\<close>. The conversion of a string is a parameter, so that what is proved holds
  for every behaviour of the built-in parser.
\<close>

definition py_int :: "(string \<Rightarrow> error + int) \<Rightarrow> pyval \<Rightarrow> error + int" where
  "py_int int_of_str v =
     (case v of
        PyNone \<Rightarrow> Inl TypeError
      | PyBool b \<Rightarrow> Inr (if b then 1 else 0)
      | PyInt n \<Rightarrow> Inr n
      | PyStr t \<Rightarrow> int_of_str t)"

text \<open>\<^verbatim>\<open>round(n)\<close> of an integer, with no number of digits, is the integer itself.\<close>

definition py_round :: "int \<Rightarrow> int" where
  "py_round n = n"

text \<open>
  \<^verbatim>\<open>s.count(sub)\<close>: the number of non-overlapping occurrences, scanning from the left;
  the empty string occurs \<open>length s + 1\<close> times.
\<close>

function count_from :: "string \<Rightarrow> string \<Rightarrow> nat" where
  "count_from sub s =
     (if sub = [] \<or> s = [] then 0
      else if prefix sub s then Suc (count_from sub (drop (length sub) s))
      else count_from sub (tl s))"
  by pat_completeness auto
termination
  by (relation "measure (\<lambda>(sub, s). length s)") auto

declare count_from.simps [simp del]

definition py_count :: "string \<Rightarrow> string \<Rightarrow> nat" where
  "py_count s sub = (if sub = [] then length s + 1 else count_from sub s)"

text \<open>\<^verbatim>\<open>s.find(sub)\<close>: the lowest index at which \<open>sub\<close> starts, and \<open>-1\<close> when there is none.\<close>

fun find_at :: "string \<Rightarrow> string \<Rightarrow> nat \<Rightarrow> int" where
  "find_at sub [] k = (if sub = [] then int k else - 1)"
| "find_at sub (c # cs) k = (if prefix sub (c # cs) then int k else find_at sub cs (k + 1))"

definition py_find :: "string \<Rightarrow> string \<Rightarrow> int" where
  "py_find s sub = find_at sub s 0"

text \<open>The string \<open>sub\<close> occurs in \<open>s\<close> at index \<open>i\<close>.\<close>

definition occurs_at :: "string \<Rightarrow> string \<Rightarrow> nat \<Rightarrow> bool" where
  "occurs_at s sub i \<longleftrightarrow> i \<le> length s \<and> prefix sub (drop i s)"

text \<open>
  Concrete models of \<^verbatim>\<open>str.isnumeric\<close> and of \<^verbatim>\<open>int\<close> on strings, over the 8-bit
  characters of \<^typ>\<open>string\<close>: they instantiate the parameters of the functions below.
  A string is numeric when it is not empty and every character is a digit, a superscript
  digit or a vulgar fraction. \<^verbatim>\<open>int\<close> strips white space (tab to carriage return,
  space, next line and no-break space; the separators 28 to 31 are not stripped), accepts
  one sign, and then needs decimal digits, with single underscores allowed between digits.
\<close>

definition is_digit :: "char \<Rightarrow> bool" where
  "is_digit c \<longleftrightarrow> 48 \<le> (of_char c :: nat) \<and> (of_char c :: nat) \<le> 57"

definition is_numeric_char :: "char \<Rightarrow> bool" where
  "is_numeric_char c \<longleftrightarrow>
     is_digit c \<or> (of_char c :: nat) \<in> set [178, 179, 185, 188, 189, 190]"

definition is_space :: "char \<Rightarrow> bool" where
  "is_space c \<longleftrightarrow>
     (9 \<le> (of_char c :: nat) \<and> (of_char c :: nat) \<le> 13) \<or>
     (of_char c :: nat) = 32 \<or>
     (of_char c :: nat) = 133 \<or> (of_char c :: nat) = 160"

definition py_isnumeric :: "string \<Rightarrow> bool" where
  "py_isnumeric s \<longleftrightarrow> s \<noteq> [] \<and> list_all is_numeric_char s"

fun digits_value :: "int \<Rightarrow> string \<Rightarrow> int" where
  "digits_value acc [] = acc"
| "digits_value acc (c # cs) =
     (if is_digit c then digits_value (10 * acc + (int (of_char c) - 48)) cs
      else digits_value acc cs)"

fun digits_ok :: "bool \<Rightarrow> string \<Rightarrow> bool" where
  "digits_ok after_digit [] = after_digit"
| "digits_ok after_digit (c # cs) =
     (if is_digit c then digits_ok True cs
      else if c = CHR ''_'' \<and> after_digit then digits_ok False cs
      else False)"

definition py_int_of_str :: "string \<Rightarrow> error + int" where
  "py_int_of_str s =
     (let t = rev (dropWhile is_space (rev (dropWhile is_space s)));
          neg = (t \<noteq> [] \<and> hd t = CHR ''-'');
          d = (if t \<noteq> [] \<and> (hd t = CHR ''-'' \<or> hd t = CHR ''+'') then tl t else t)
      in if digits_ok False d
         then Inr (if neg then - digits_value 0 d else digits_value 0 d)
         else Inl ValueError)"

subsection \<open>SUBSTR\<close>

text \<open>
  \<^verbatim>\<open>
  def SUBSTR(cExpression, cStart, nCharactersReturned):
    start = int(cStart)
    if start > len(cExpression):
      print("Error, start position is greater than the length of the expression. Are you sure your using an expression?")
    elif nCharactersReturned is None or " ":
      return cExpression[:len(cExpression)]
    else:
      val = cExpression[:nCharactersReturned]
      return val
  \<close>
  The result is the list of printed lines with the returned value; the first branch prints
  and returns \<^verbatim>\<open>None\<close>. The test of the second branch is
  \<^verbatim>\<open>(nCharactersReturned is None) or " "\<close>.
\<close>

definition SUBSTR ::
  "(string \<Rightarrow> error + int) \<Rightarrow> string \<Rightarrow> pyval \<Rightarrow> pyval \<Rightarrow> error + (string list \<times> pyval)" where
  "SUBSTR int_of_str cExpression cStart nCharactersReturned =
     (case py_int int_of_str cStart of
        Inl e \<Rightarrow> Inl e
      | Inr start \<Rightarrow>
          if start > int (length cExpression) then
            Inr ([''Error, start position is greater than the length of the expression. Are you sure your using an expression?''],
                 PyNone)
          else if truthy (py_or (PyBool (nCharactersReturned = PyNone)) (PyStr '' '')) then
            Inr ([], PyStr (py_slice cExpression 0 (length cExpression)))
          else
            (case py_slice_to cExpression nCharactersReturned of
               Inl e \<Rightarrow> Inl e
             | Inr val \<Rightarrow> Inr ([], PyStr val)))"

subsection \<open>AT\<close>

text \<open>
  \<^verbatim>\<open>
  def AT(cSearchExpression, cExpressionSearched, nOccurrence):
    if nOccurrence > cSearchExpression.count(cExpressionSearched):
      return "Error, there are not that many occurances of the expression."
    else:
      return cSearchExpression.find(cExpressionSearched)
  \<close>
\<close>

definition AT :: "string \<Rightarrow> string \<Rightarrow> int \<Rightarrow> pyval" where
  "AT cSearchExpression cExpressionSearched nOccurrence =
     (if nOccurrence > int (py_count cSearchExpression cExpressionSearched) then
        PyStr ''Error, there are not that many occurances of the expression.''
      else PyInt (py_find cSearchExpression cExpressionSearched))"

subsection \<open>VAL\<close>

text \<open>
  \<^verbatim>\<open>
  def VAL(cExpression):
    first_letter = cExpression[:1]
    length = len(cExpression)
    if first_letter.isnumeric() or "-" or "+":
        if length < 16:
          return int(cExpression)
    if length > 16:
      rounded = round(int(cExpression[:16]))
      return rounded
    else:
      return 0
  \<close>
  \<open>VAL_tail\<close> is the second \<^verbatim>\<open>if\<close> statement, which is reached when the first one does
  not return. \<^verbatim>\<open>isnumeric\<close> and \<^verbatim>\<open>int\<close> are parameters.
\<close>

definition VAL_tail :: "(string \<Rightarrow> error + int) \<Rightarrow> string \<Rightarrow> error + pyval" where
  "VAL_tail int_of_str cExpression =
     (if length cExpression > 16 then
        (case int_of_str (py_slice cExpression 0 16) of
           Inl e \<Rightarrow> Inl e
         | Inr n \<Rightarrow> Inr (PyInt (py_round n)))
      else Inr (PyInt 0))"

definition VAL :: "(string \<Rightarrow> bool) \<Rightarrow> (string \<Rightarrow> error + int) \<Rightarrow> string \<Rightarrow> error + pyval" where
  "VAL isnumeric int_of_str cExpression =
     (let first_letter = py_slice cExpression 0 1;
          len = length cExpression
      in if truthy (py_or (py_or (PyBool (isnumeric first_letter)) (PyStr ''-'')) (PyStr ''+'')) then
           (if len < 16 then
              (case int_of_str cExpression of
                 Inl e \<Rightarrow> Inl e
               | Inr n \<Rightarrow> Inr (PyInt n))
            else VAL_tail int_of_str cExpression)
         else VAL_tail int_of_str cExpression)"

section \<open>Properties of the loops\<close>

lemma for_loop_append:
  "for_loop (xs @ ys) f st =
     (case for_loop xs f st of Inl e \<Rightarrow> Inl e | Inr st' \<Rightarrow> for_loop ys f st')"
  by (induction xs arbitrary: st) (auto split: sum.splits)

lemma length_py_slice: "j < length s \<Longrightarrow> length (py_slice s i (Suc j)) = Suc j - i"
  by (simp add: py_slice_def)

lemma span_body_eq:
  "i < j \<Longrightarrow> j < length s \<Longrightarrow>
   span_body s c1 c2 i j r =
     Inr (if s ! i = c1 \<and> s ! j = c2 \<and> Suc j - i > length r then py_slice s i (Suc j) else r)"
  by (simp add: span_body_def py_getitem_def length_py_slice)

lemma best_among_step:
  assumes b: "best_among (\<lambda>i' j'. i' < i \<or> (i' = i \<and> j' < m)) s c1 c2 r"
    and im: "i < m" and ms: "m < length s"
  shows "best_among (\<lambda>i' j'. i' < i \<or> (i' = i \<and> j' < Suc m)) s c1 c2
           (if s ! i = c1 \<and> s ! m = c2 \<and> Suc m - i > length r then py_slice s i (Suc m) else r)"
    (is "best_among ?P' s c1 c2 ?r'")
proof -
  let ?P = "\<lambda>i' j'. i' < i \<or> (i' = i \<and> j' < m)"
  have old: "\<And>i' j'. ?P i' j' \<Longrightarrow> valid_span s c1 c2 i' j' \<Longrightarrow> Suc j' - i' \<le> length r"
    using b by (simp add: best_among_def)
  have src: "r = [] \<or> (\<exists>i' j'. ?P i' j' \<and> valid_span s c1 c2 i' j' \<and> r = py_slice s i' (Suc j'))"
    using b by (simp add: best_among_def)
  have new: "?P' i' j' \<longleftrightarrow> ?P i' j' \<or> (i' = i \<and> j' = m)" for i' j'
    by (auto simp: less_Suc_eq)
  have vim: "valid_span s c1 c2 i m \<longleftrightarrow> s ! i = c1 \<and> s ! m = c2"
    using im ms by (simp add: valid_span_def)
  have len: "length r \<le> length ?r'"
    using ms by (simp add: length_py_slice)
  have bound: "Suc j' - i' \<le> length ?r'" if "?P' i' j'" "valid_span s c1 c2 i' j'" for i' j'
  proof (cases "?P i' j'")
    case True
    from old[OF True that(2)] len show ?thesis by (rule le_trans)
  next
    case False
    then have "i' = i" "j' = m" using that(1) new by auto
    then show ?thesis using that(2) vim ms by (simp add: length_py_slice)
  qed
  have orig: "?r' = [] \<or> (\<exists>i' j'. ?P' i' j' \<and> valid_span s c1 c2 i' j' \<and> ?r' = py_slice s i' (Suc j'))"
  proof (cases "s ! i = c1 \<and> s ! m = c2 \<and> Suc m - i > length r")
    case True
    then have "?P' i m \<and> valid_span s c1 c2 i m \<and> ?r' = py_slice s i (Suc m)"
      using vim by simp
    then show ?thesis by blast
  next
    case False
    then have "?r' = r" by auto
    then show ?thesis using src new by metis
  qed
  show ?thesis
    unfolding best_among_def using bound orig by simp
qed

lemma span_inner_best:
  assumes "i < length s" and "best_among (\<lambda>i' j'. i' < i) s c1 c2 r0"
  shows "\<exists>r. span_inner s c1 c2 i r0 = Inr r \<and> best_among (\<lambda>i' j'. i' < Suc i) s c1 c2 r"
proof -
  have "\<exists>r. for_loop [Suc i ..< m] (span_body s c1 c2 i) r0 = Inr r \<and>
            best_among (\<lambda>i' j'. i' < i \<or> (i' = i \<and> j' < m)) s c1 c2 r"
    if "Suc i \<le> m" "m \<le> length s" for m
    using that
  proof (induction rule: dec_induct)
    case base
    have "best_among (\<lambda>i' j'. i' < i \<or> (i' = i \<and> j' < Suc i)) s c1 c2 r0"
      using assms(2) unfolding best_among_def valid_span_def by auto
    then show ?case by simp
  next
    case (step n)
    then obtain r where r: "for_loop [Suc i ..< n] (span_body s c1 c2 i) r0 = Inr r"
      and br: "best_among (\<lambda>i' j'. i' < i \<or> (i' = i \<and> j' < n)) s c1 c2 r"
      by auto
    have "i < n" "n < length s" using step by auto
    then show ?case
      using r best_among_step[OF br] step.hyps(1)
      by (simp add: for_loop_append span_body_eq del: upt_Suc add: upt_Suc_append)
  qed
  from this[of "length s"] assms(1)
  obtain r where r: "span_inner s c1 c2 i r0 = Inr r"
    and br: "best_among (\<lambda>i' j'. i' < i \<or> (i' = i \<and> j' < length s)) s c1 c2 r"
    by (auto simp: span_inner_def)
  have "best_among (\<lambda>i' j'. i' < Suc i) s c1 c2 r"
    using br unfolding best_among_def valid_span_def by (auto simp: less_Suc_eq)
  with r show ?thesis by blast
qed

lemma span_outer_best:
  "k \<le> length s \<Longrightarrow>
   \<exists>r. for_loop [0 ..< k] (span_inner s c1 c2) [] = Inr r \<and> best_among (\<lambda>i' j'. i' < k) s c1 c2 r"
proof (induction k)
  case 0
  show ?case by (simp add: best_among_def)
next
  case (Suc k)
  then obtain r where r: "for_loop [0 ..< k] (span_inner s c1 c2) [] = Inr r"
    and br: "best_among (\<lambda>i' j'. i' < k) s c1 c2 r"
    by auto
  from Suc.prems have "k < length s" by simp
  from span_inner_best[OF this br] r show ?case
    by (auto simp: for_loop_append)
qed

lemma find_longest_best:
  "\<exists>r. findLongestSubStringThatContainsTwoCharacters s c1 c2 = Inr r \<and>
       best_among (\<lambda>i' j'. True) s c1 c2 r"
proof -
  from span_outer_best[of "length s" s c1 c2]
  obtain r where r: "for_loop [0 ..< length s] (span_inner s c1 c2) [] = Inr r"
    and br: "best_among (\<lambda>i' j'. i' < length s) s c1 c2 r"
    by auto
  have "best_among (\<lambda>i' j'. True) s c1 c2 r"
    using br unfolding best_among_def valid_span_def by (auto; metis less_trans)
  with r show ?thesis
    by (auto simp: findLongestSubStringThatContainsTwoCharacters_def)
qed

lemma valid_span_slice:
  assumes "valid_span s c1 c2 i j"
  shows "hd (py_slice s i (Suc j)) = c1" and "last (py_slice s i (Suc j)) = c2"
    and "sublist (py_slice s i (Suc j)) s" and "length (py_slice s i (Suc j)) = Suc j - i"
    and "2 \<le> length (py_slice s i (Suc j))"
proof -
  from assms have ij: "i < j" and js: "j < length s" and a: "s ! i = c1" and b: "s ! j = c2"
    by (auto simp: valid_span_def)
  show "hd (py_slice s i (Suc j)) = c1"
    using ij js a by (simp add: py_slice_def hd_drop_conv_nth)
  have len: "length (py_slice s i (Suc j)) = Suc j - i"
    using js by (simp add: length_py_slice)
  then have "py_slice s i (Suc j) \<noteq> []" using ij by auto
  then have "last (py_slice s i (Suc j)) = py_slice s i (Suc j) ! (j - i)"
    using len by (simp add: last_conv_nth)
  also have "\<dots> = s ! j"
    using ij js by (simp add: py_slice_def)
  finally show "last (py_slice s i (Suc j)) = c2"
    using b by simp
  have "s = take i s @ py_slice s i (Suc j) @ drop (Suc j - i) (drop i s)"
    by (simp only: py_slice_def append_take_drop_id)
  then show "sublist (py_slice s i (Suc j)) s"
    by (metis sublist_appendI)
  show "length (py_slice s i (Suc j)) = Suc j - i"
    using js by (simp add: length_py_slice)
  then show "2 \<le> length (py_slice s i (Suc j))"
    using ij by simp
qed

lemma longest_valid_unique:
  assumes v: "valid_span s c1 c2 i j" and v': "valid_span s c1 c2 i' j'"
    and eq: "j - i = j' - i'"
    and mx: "\<And>a b. valid_span s c1 c2 a b \<Longrightarrow> b - a \<le> j - i"
  shows "i = i' \<and> j = j'"
proof -
  from v v' have ij: "i < j" "i' < j'" "j < length s" "j' < length s"
    and ch: "s ! i = c1" "s ! i' = c1" "s ! j = c2" "s ! j' = c2"
    by (auto simp: valid_span_def)
  have "\<not> i < i'"
  proof
    assume lt: "i < i'"
    with ij eq have "j < j'" by arith
    with ij ch have "valid_span s c1 c2 i j'" by (simp add: valid_span_def)
    from mx[OF this] \<open>j < j'\<close> ij show False by arith
  qed
  moreover have "\<not> i' < i"
  proof
    assume lt: "i' < i"
    with ij ch have "valid_span s c1 c2 i' j" by (simp add: valid_span_def)
    from mx[OF this] lt ij show False by arith
  qed
  ultimately have "i = i'" by arith
  with eq ij show ?thesis by arith
qed


lemma set_span_pairs: "set (span_pairs n) = {(i, j). i < j \<and> j < n}"
  by (fastforce simp: span_pairs_def)

section \<open>Properties of the longest span\<close>

lemma find_holds: "List.find P xs = Some x \<Longrightarrow> P x"
  by (induction xs) (auto split: if_splits)

text \<open>
  Claim C1. A non-empty result starts with \<open>c1\<close>, ends with \<open>c2\<close>, is a contiguous
  piece of the input (it is the slice between two indices \<open>i < j\<close>), and has at least two
  characters, also when \<open>c1 = c2\<close>.
\<close>

theorem span_result_shape:
  assumes "findLongestSubStringThatContainsTwoCharacters s c1 c2 = Inr r" and "r \<noteq> []"
  shows "hd r = c1 \<and> last r = c2 \<and> sublist r s \<and> 2 \<le> length r \<and>
         (\<exists>i j. i < j \<and> j < length s \<and> r = py_slice s i (j + 1))"
proof -
  from find_longest_best[of s c1 c2] assms(1)
  have "best_among (\<lambda>i' j'. True) s c1 c2 r" by auto
  with assms(2) obtain i j where v: "valid_span s c1 c2 i j" and r: "r = py_slice s i (Suc j)"
    by (auto simp: best_among_def)
  from v have "i < j \<and> j < length s" by (simp add: valid_span_def)
  with r valid_span_slice[OF v] show ?thesis by auto
qed

theorem span_result_shape_witness:
  "findLongestSubStringThatContainsTwoCharacters ''xaybz'' CHR ''a'' CHR ''b'' = Inr ''ayb'' \<and>
   hd ''ayb'' = CHR ''a'' \<and> last ''ayb'' = CHR ''b'' \<and> sublist ''ayb'' ''xaybz'' \<and>
   2 \<le> length ''ayb''"
proof -
  have h: "findLongestSubStringThatContainsTwoCharacters ''xaybz'' CHR ''a'' CHR ''b'' = Inr ''ayb''"
    by code_simp
  have n: "''ayb'' \<noteq> []" by simp
  show ?thesis using h span_result_shape[OF h n] by simp
qed

text \<open>
  Claim C2. The function returns, and no candidate span of the input is strictly longer
  than the result.
\<close>

theorem span_result_longest:
  "\<exists>r. findLongestSubStringThatContainsTwoCharacters s c1 c2 = Inr r \<and>
       (\<forall>i j. valid_span s c1 c2 i j \<longrightarrow> \<not> length r < j + 1 - i)"
proof -
  from find_longest_best[of s c1 c2] obtain r where
    r: "findLongestSubStringThatContainsTwoCharacters s c1 c2 = Inr r" and
    b: "best_among (\<lambda>i' j'. True) s c1 c2 r" by blast
  from b have "\<forall>i j. valid_span s c1 c2 i j \<longrightarrow> \<not> length r < j + 1 - i"
    by (auto simp: best_among_def not_less)
  with r show ?thesis by blast
qed

theorem span_result_longest_witness:
  "valid_span ''abab'' CHR ''a'' CHR ''b'' 0 3 \<and>
   (\<exists>r. findLongestSubStringThatContainsTwoCharacters ''abab'' CHR ''a'' CHR ''b'' = Inr r \<and>
        \<not> length r < 3 + 1 - 0)"
proof -
  have v: "valid_span ''abab'' CHR ''a'' CHR ''b'' 0 3" by (simp add: valid_span_def)
  show ?thesis using v span_result_longest[of "''abab''" "CHR ''a''" "CHR ''b''"] by blast
qed

text \<open>
  Claim C3. The result is the span of the first pair, in the order of the loops, that is a
  candidate span of maximal length (and the empty string when there is no candidate).
\<close>

theorem span_tie_break:
  "findLongestSubStringThatContainsTwoCharacters s c1 c2 =
     Inr (case first_longest s c1 c2 of None \<Rightarrow> [] | Some (i, j) \<Rightarrow> py_slice s i (j + 1))"
proof -
  from find_longest_best[of s c1 c2] obtain r where
    r: "findLongestSubStringThatContainsTwoCharacters s c1 c2 = Inr r" and
    b: "best_among (\<lambda>i' j'. True) s c1 c2 r" by blast
  have bound: "\<And>i j. valid_span s c1 c2 i j \<Longrightarrow> Suc j - i \<le> length r"
    and src: "r = [] \<or> (\<exists>i j. valid_span s c1 c2 i j \<and> r = py_slice s i (Suc j))"
    using b by (auto simp: best_among_def)
  let ?Q = "\<lambda>(i, j). valid_span s c1 c2 i j \<and>
                  (\<forall>(i', j') \<in> set (span_pairs (length s)).
                      valid_span s c1 c2 i' j' \<longrightarrow> j' - i' \<le> j - i)"
  have mem: "valid_span s c1 c2 i j \<Longrightarrow> (i, j) \<in> set (span_pairs (length s))" for i j
    by (simp add: set_span_pairs valid_span_def)
  show ?thesis
  proof (cases "first_longest s c1 c2")
    case None
    then have none: "\<And>p. p \<in> set (span_pairs (length s)) \<Longrightarrow> \<not> ?Q p"
      unfolding first_longest_def find_None_iff by blast
    have "r = []"
    proof (rule ccontr)
      assume "r \<noteq> []"
      with src obtain i j where v: "valid_span s c1 c2 i j" and e: "r = py_slice s i (Suc j)"
        by blast
      have l: "length r = Suc j - i" using v e by (simp add: valid_span_slice(4))
      have "?Q (i, j)"
      proof -
        have "j' - i' \<le> j - i" if "valid_span s c1 c2 i' j'" for i' j'
          using bound[OF that] l v that by (auto simp: valid_span_def)
        with v show ?thesis by auto
      qed
      with none[OF mem[OF v]] show False by blast
    qed
    with r None show ?thesis by simp
  next
    case (Some p)
    obtain i j where p: "p = (i, j)" by (cases p)
    from Some have "?Q p"
      unfolding first_longest_def by (rule find_holds)
    with p have v: "valid_span s c1 c2 i j"
      and al: "\<forall>(i', j') \<in> set (span_pairs (length s)).
                 valid_span s c1 c2 i' j' \<longrightarrow> j' - i' \<le> j - i"
      by auto
    have mx: "j' - i' \<le> j - i" if "valid_span s c1 c2 i' j'" for i' j'
      using al mem[OF that] that by fastforce
    from v have ij: "i < j" by (simp add: valid_span_def)
    with bound[OF v] have "r \<noteq> []" by auto
    with src obtain i' j' where v': "valid_span s c1 c2 i' j'" and e: "r = py_slice s i' (Suc j')"
      by blast
    have l: "length r = Suc j' - i'" using v' e by (simp add: valid_span_slice(4))
    from v' have ij': "i' < j'" by (simp add: valid_span_def)
    from bound[OF v] l mx[OF v'] ij ij' have eq: "j - i = j' - i'" by arith
    from longest_valid_unique[OF v v' eq mx] e have "r = py_slice s i (Suc j)" by simp
    with r Some p show ?thesis by simp
  qed
qed

theorem span_tie_break_witness:
  "first_longest ''abaab'' CHR ''a'' CHR ''b'' = Some (0, 4) \<and>
   findLongestSubStringThatContainsTwoCharacters ''abaab'' CHR ''a'' CHR ''b'' = Inr ''abaab''"
proof -
  have h: "first_longest ''abaab'' CHR ''a'' CHR ''b'' = Some (0, 4)" by code_simp
  show ?thesis using h span_tie_break[of "''abaab''" "CHR ''a''" "CHR ''b''"]
    by (simp add: py_slice_def)
qed

text \<open>
  Claim C4. The function never raises, and its result is empty exactly when the input has
  no candidate span: in particular on the empty string, when \<open>c1\<close> does not occur, when
  \<open>c2\<close> does not occur, and when no \<open>c1\<close> stands strictly before a \<open>c2\<close>.
\<close>

theorem span_never_fails:
  "(\<exists>r. findLongestSubStringThatContainsTwoCharacters s c1 c2 = Inr r \<and>
        (r = [] \<longleftrightarrow> \<not> (\<exists>i j. valid_span s c1 c2 i j))) \<and>
   (s = [] \<longrightarrow> findLongestSubStringThatContainsTwoCharacters s c1 c2 = Inr []) \<and>
   (c1 \<notin> set s \<longrightarrow> findLongestSubStringThatContainsTwoCharacters s c1 c2 = Inr []) \<and>
   (c2 \<notin> set s \<longrightarrow> findLongestSubStringThatContainsTwoCharacters s c1 c2 = Inr []) \<and>
   ((\<forall>i j. i < j \<and> j < length s \<and> s ! i = c1 \<longrightarrow> s ! j \<noteq> c2) \<longrightarrow>
      findLongestSubStringThatContainsTwoCharacters s c1 c2 = Inr [])"
proof -
  from find_longest_best[of s c1 c2] obtain r where
    r: "findLongestSubStringThatContainsTwoCharacters s c1 c2 = Inr r" and
    b: "best_among (\<lambda>i' j'. True) s c1 c2 r" by blast
  have bound: "\<And>i j. valid_span s c1 c2 i j \<Longrightarrow> Suc j - i \<le> length r"
    and src: "r = [] \<or> (\<exists>i j. valid_span s c1 c2 i j \<and> r = py_slice s i (Suc j))"
    using b by (auto simp: best_among_def)
  have iff: "r = [] \<longleftrightarrow> \<not> (\<exists>i j. valid_span s c1 c2 i j)"
  proof
    assume "r = []"
    show "\<not> (\<exists>i j. valid_span s c1 c2 i j)"
    proof
      assume "\<exists>i j. valid_span s c1 c2 i j"
      then obtain i j where v: "valid_span s c1 c2 i j" by blast
      then have "i < j" by (simp add: valid_span_def)
      with bound[OF v] \<open>r = []\<close> show False by simp
    qed
  next
    assume "\<not> (\<exists>i j. valid_span s c1 c2 i j)"
    with src show "r = []" by blast
  qed
  have none: "\<not> (\<exists>i j. valid_span s c1 c2 i j) \<Longrightarrow>
      findLongestSubStringThatContainsTwoCharacters s c1 c2 = Inr []"
    using r iff by simp
  have e1: "s = [] \<longrightarrow> findLongestSubStringThatContainsTwoCharacters s c1 c2 = Inr []"
  proof
    assume "s = []"
    then have "\<not> (\<exists>i j. valid_span s c1 c2 i j)" by (simp add: valid_span_def)
    then show "findLongestSubStringThatContainsTwoCharacters s c1 c2 = Inr []" by (rule none)
  qed
  have e2: "c1 \<notin> set s \<longrightarrow> findLongestSubStringThatContainsTwoCharacters s c1 c2 = Inr []"
  proof
    assume a: "c1 \<notin> set s"
    have "\<not> valid_span s c1 c2 i j" for i j
    proof
      assume "valid_span s c1 c2 i j"
      then have "i < length s" "s ! i = c1" by (auto simp: valid_span_def)
      then have "c1 \<in> set s" using nth_mem by blast
      with a show False by simp
    qed
    then have "\<not> (\<exists>i j. valid_span s c1 c2 i j)" by blast
    then show "findLongestSubStringThatContainsTwoCharacters s c1 c2 = Inr []" by (rule none)
  qed
  have e3: "c2 \<notin> set s \<longrightarrow> findLongestSubStringThatContainsTwoCharacters s c1 c2 = Inr []"
  proof
    assume a: "c2 \<notin> set s"
    have "\<not> valid_span s c1 c2 i j" for i j
    proof
      assume "valid_span s c1 c2 i j"
      then have "j < length s" "s ! j = c2" by (auto simp: valid_span_def)
      then have "c2 \<in> set s" using nth_mem by blast
      with a show False by simp
    qed
    then have "\<not> (\<exists>i j. valid_span s c1 c2 i j)" by blast
    then show "findLongestSubStringThatContainsTwoCharacters s c1 c2 = Inr []" by (rule none)
  qed
  have e4: "(\<forall>i j. i < j \<and> j < length s \<and> s ! i = c1 \<longrightarrow> s ! j \<noteq> c2) \<longrightarrow>
      findLongestSubStringThatContainsTwoCharacters s c1 c2 = Inr []"
  proof
    assume a: "\<forall>i j. i < j \<and> j < length s \<and> s ! i = c1 \<longrightarrow> s ! j \<noteq> c2"
    then have "\<not> (\<exists>i j. valid_span s c1 c2 i j)" by (auto simp: valid_span_def)
    then show "findLongestSubStringThatContainsTwoCharacters s c1 c2 = Inr []" by (rule none)
  qed
  from r iff e1 e2 e3 e4 show ?thesis by blast
qed

theorem span_never_fails_witness:
  "findLongestSubStringThatContainsTwoCharacters [] CHR ''a'' CHR ''b'' = Inr [] \<and>
   CHR ''a'' \<notin> set ''xbz'' \<and>
   findLongestSubStringThatContainsTwoCharacters ''xbz'' CHR ''a'' CHR ''b'' = Inr [] \<and>
   findLongestSubStringThatContainsTwoCharacters ''ba'' CHR ''a'' CHR ''b'' = Inr [] \<and>
   valid_span ''ab'' CHR ''a'' CHR ''b'' 0 1 \<and>
   findLongestSubStringThatContainsTwoCharacters ''ab'' CHR ''a'' CHR ''b'' \<noteq> Inr []"
proof -
  have h1: "CHR ''a'' \<notin> set ''xbz''" by simp
  have h2: "\<forall>i j. i < j \<and> j < length ''ba'' \<and> ''ba'' ! i = CHR ''a'' \<longrightarrow> ''ba'' ! j \<noteq> CHR ''b''"
    by (auto simp: less_Suc_eq)
  have h3: "valid_span ''ab'' CHR ''a'' CHR ''b'' 0 1" by (simp add: valid_span_def)
  from span_never_fails[of "[]" "CHR ''a''" "CHR ''b''"]
  have a: "findLongestSubStringThatContainsTwoCharacters [] CHR ''a'' CHR ''b'' = Inr []" by blast
  from span_never_fails[of "''xbz''" "CHR ''a''" "CHR ''b''"] h1
  have b: "findLongestSubStringThatContainsTwoCharacters ''xbz'' CHR ''a'' CHR ''b'' = Inr []" by blast
  from span_never_fails[of "''ba''" "CHR ''a''" "CHR ''b''"] h2
  have c: "findLongestSubStringThatContainsTwoCharacters ''ba'' CHR ''a'' CHR ''b'' = Inr []" by blast
  from span_never_fails[of "''ab''" "CHR ''a''" "CHR ''b''"] h3
  have d: "findLongestSubStringThatContainsTwoCharacters ''ab'' CHR ''a'' CHR ''b'' \<noteq> Inr []" by auto
  from a b c d h1 h3 show ?thesis by blast
qed

text \<open>
  Claim C7. The three concrete scenarios: \<^verbatim>\<open>("ba", 'a', 'b')\<close> gives the empty string,
  \<^verbatim>\<open>("aab", 'a', 'b')\<close> gives \<^verbatim>\<open>"aab"\<close>, and \<^verbatim>\<open>("aaa", 'a', 'a')\<close> gives \<^verbatim>\<open>"aaa"\<close>.
\<close>

theorem span_scenarios:
  "findLongestSubStringThatContainsTwoCharacters ''ba'' CHR ''a'' CHR ''b'' = Inr [] \<and>
   findLongestSubStringThatContainsTwoCharacters ''aab'' CHR ''a'' CHR ''b'' = Inr ''aab'' \<and>
   findLongestSubStringThatContainsTwoCharacters ''aaa'' CHR ''a'' CHR ''a'' = Inr ''aaa''"
  by code_simp

section \<open>The one-pass alternative against the loops\<close>














section \<open>Properties of the string helpers\<close>

text \<open>
  Claim C8. When \<^verbatim>\<open>int(cStart)\<close> is at most the length of \<open>cExpression\<close>, \<open>SUBSTR\<close>
  prints nothing and returns the whole of \<open>cExpression\<close>, whatever
  \<open>nCharactersReturned\<close> is.
\<close>

theorem SUBSTR_whole:
  assumes "py_int int_of_str cStart = Inr start" and "start \<le> int (length cExpression)"
  shows "SUBSTR int_of_str cExpression cStart nCharactersReturned = Inr ([], PyStr cExpression)"
  using assms by (simp add: SUBSTR_def py_or_def py_slice_def)

theorem SUBSTR_whole_witness:
  "py_int py_int_of_str (PyInt 1) = Inr 1 \<and> (1::int) \<le> int (length ''Hello World'') \<and>
   SUBSTR py_int_of_str ''Hello World'' (PyInt 1) (PyInt 3) = Inr ([], PyStr ''Hello World'')"
proof -
  have h1: "py_int py_int_of_str (PyInt 1) = Inr 1" by (simp add: py_int_def)
  have h2: "(1::int) \<le> int (length ''Hello World'')" by simp
  show ?thesis using h1 h2 SUBSTR_whole[OF h1 h2, of "PyInt 3"] by simp
qed

lemma find_at_none:
  "(\<And>i. i \<le> length s \<Longrightarrow> \<not> prefix sub (drop i s)) \<Longrightarrow> find_at sub s k = - 1"
proof (induction s arbitrary: k)
  case Nil
  from Nil[of 0] show ?case by auto
next
  case (Cons c cs)
  from Cons.prems[of 0] have np: "\<not> prefix sub (c # cs)" by simp
  have "\<not> prefix sub (drop i cs)" if "i \<le> length cs" for i
    using Cons.prems[of "Suc i"] that by simp
  from Cons.IH[OF this] np show ?case by simp
qed

lemma find_at_first:
  "i \<le> length s \<Longrightarrow> prefix sub (drop i s) \<Longrightarrow>
   \<exists>m\<le>i. find_at sub s k = int (k + m) \<and> prefix sub (drop m s) \<and>
          (\<forall>n<m. \<not> prefix sub (drop n s))"
proof (induction s arbitrary: i k)
  case Nil
  then show ?case by auto
next
  case (Cons c cs)
  show ?case
  proof (cases "prefix sub (c # cs)")
    case True
    then have "find_at sub (c # cs) k = int (k + 0) \<and> prefix sub (drop 0 (c # cs)) \<and>
               (\<forall>n<0. \<not> prefix sub (drop n (c # cs)))" by simp
    then show ?thesis by blast
  next
    case False
    with Cons.prems obtain i' where i': "i = Suc i'" by (cases i) auto
    with Cons.prems have "i' \<le> length cs" "prefix sub (drop i' cs)" by auto
    from Cons.IH[OF this, of "k + 1"] obtain m where m: "m \<le> i'"
      "find_at sub cs (k + 1) = int (k + 1 + m)" "prefix sub (drop m cs)"
      "\<forall>n<m. \<not> prefix sub (drop n cs)" by blast
    have "\<forall>n<Suc m. \<not> prefix sub (drop n (c # cs))"
    proof (intro allI impI)
      fix n assume "n < Suc m"
      show "\<not> prefix sub (drop n (c # cs))"
      proof (cases n)
        case 0
        with False show ?thesis by simp
      next
        case (Suc n')
        with \<open>n < Suc m\<close> m(4) show ?thesis by simp
      qed
    qed
    with m i' False have "Suc m \<le> i \<and> find_at sub (c # cs) k = int (k + Suc m) \<and>
       prefix sub (drop (Suc m) (c # cs)) \<and> (\<forall>n<Suc m. \<not> prefix sub (drop n (c # cs)))"
      by simp
    then show ?thesis by blast
  qed
qed

lemma count_from_pos:
  "sub \<noteq> [] \<Longrightarrow> 0 < count_from sub s \<longleftrightarrow> (\<exists>i\<le>length s. prefix sub (drop i s))"
proof (induction sub s rule: count_from.induct)
  case (1 sub s)
  show ?case
  proof (cases "s = []")
    case True
    have "count_from sub s = 0"
      using True by (subst count_from.simps) simp
    moreover have "\<not> (\<exists>i\<le>length s. prefix sub (drop i s))"
      using True "1.prems" by simp
    ultimately show ?thesis by simp
  next
    case ne: False
    show ?thesis
    proof (cases "prefix sub s")
      case True
      then have "prefix sub (drop 0 s)" by simp
      then have "\<exists>i\<le>length s. prefix sub (drop i s)" by blast
      moreover have "0 < count_from sub s"
        using True ne "1.prems" by (subst count_from.simps) simp
      ultimately show ?thesis by simp
    next
      case False
      have eq: "count_from sub s = count_from sub (tl s)"
        using False ne "1.prems" by (subst count_from.simps) simp
      have ih: "0 < count_from sub (tl s) \<longleftrightarrow> (\<exists>i\<le>length (tl s). prefix sub (drop i (tl s)))"
        using "1.IH"(2)[OF _ False "1.prems"] ne "1.prems" by simp
      obtain c cs where s: "s = c # cs" using ne by (cases s) auto
      have "(\<exists>i\<le>length s. prefix sub (drop i s)) \<longleftrightarrow> (\<exists>i\<le>length cs. prefix sub (drop i cs))"
      proof
        assume "\<exists>i\<le>length s. prefix sub (drop i s)"
        then obtain i where i: "i \<le> length s" "prefix sub (drop i s)" by blast
        with False obtain i' where "i = Suc i'" by (cases i) auto
        with i s show "\<exists>i\<le>length cs. prefix sub (drop i cs)" by auto
      next
        assume "\<exists>i\<le>length cs. prefix sub (drop i cs)"
        then obtain i where "i \<le> length cs" "prefix sub (drop i cs)" by blast
        then have "Suc i \<le> length s \<and> prefix sub (drop (Suc i) s)" using s by simp
        then show "\<exists>i\<le>length s. prefix sub (drop i s)" by blast
      qed
      with eq ih s show ?thesis by simp
    qed
  qed
qed

lemma py_count_pos: "0 < py_count s sub \<longleftrightarrow> (\<exists>i. occurs_at s sub i)"
proof (cases "sub = []")
  case True
  then have "occurs_at s sub 0" by (simp add: occurs_at_def)
  with True show ?thesis by (auto simp: py_count_def)
next
  case False
  then show ?thesis by (simp add: py_count_def count_from_pos occurs_at_def)
qed

lemma py_find_first:
  assumes "occurs_at s sub i"
  shows "\<exists>m\<le>i. py_find s sub = int m \<and> occurs_at s sub m \<and> (\<forall>n<m. \<not> occurs_at s sub n)"
proof -
  from assms have "i \<le> length s" "prefix sub (drop i s)" by (auto simp: occurs_at_def)
  from find_at_first[OF this, of 0] obtain m where "m \<le> i" "find_at sub s 0 = int m"
    "prefix sub (drop m s)" "\<forall>n<m. \<not> prefix sub (drop n s)" by auto
  with \<open>i \<le> length s\<close> have "m \<le> i \<and> py_find s sub = int m \<and> occurs_at s sub m \<and>
      (\<forall>n<m. \<not> occurs_at s sub n)"
    by (auto simp: py_find_def occurs_at_def)
  then show ?thesis by blast
qed

lemma py_find_none: "py_count s sub = 0 \<Longrightarrow> py_find s sub = - 1"
proof -
  assume "py_count s sub = 0"
  then have "\<not> (\<exists>i. occurs_at s sub i)" using py_count_pos[of s sub] by simp
  then have "\<And>i. i \<le> length s \<Longrightarrow> \<not> prefix sub (drop i s)" by (auto simp: occurs_at_def)
  from find_at_none[OF this] show ?thesis by (simp add: py_find_def)
qed

text \<open>
  Claim C9, amended. When \<open>nOccurrence\<close> is at most the number of occurrences, \<open>AT\<close>
  returns the value of \<^verbatim>\<open>find\<close>, whatever \<open>nOccurrence\<close> is: the index of the first
  occurrence when there is one, and \<open>-1\<close> when there is none.
\<close>

theorem AT_ignores_occurrence:
  assumes "nOccurrence \<le> int (py_count cSearchExpression cExpressionSearched)"
  shows "AT cSearchExpression cExpressionSearched nOccurrence =
           PyInt (py_find cSearchExpression cExpressionSearched) \<and>
         (0 < py_count cSearchExpression cExpressionSearched \<longrightarrow>
            (\<exists>m. py_find cSearchExpression cExpressionSearched = int m \<and>
                 occurs_at cSearchExpression cExpressionSearched m \<and>
                 (\<forall>n<m. \<not> occurs_at cSearchExpression cExpressionSearched n))) \<and>
         (py_count cSearchExpression cExpressionSearched = 0 \<longrightarrow>
            py_find cSearchExpression cExpressionSearched = - 1)"
proof -
  have a: "AT cSearchExpression cExpressionSearched nOccurrence =
           PyInt (py_find cSearchExpression cExpressionSearched)"
    using assms by (simp add: AT_def)
  have b: "\<exists>m. py_find cSearchExpression cExpressionSearched = int m \<and>
                 occurs_at cSearchExpression cExpressionSearched m \<and>
                 (\<forall>n<m. \<not> occurs_at cSearchExpression cExpressionSearched n)"
    if "0 < py_count cSearchExpression cExpressionSearched"
  proof -
    from that obtain i where "occurs_at cSearchExpression cExpressionSearched i"
      using py_count_pos by blast
    from py_find_first[OF this] show ?thesis by blast
  qed
  from a b py_find_none show ?thesis by blast
qed

theorem AT_ignores_occurrence_witness:
  "(2::int) \<le> int (py_count ''Hello World'' ''l'') \<and> AT ''Hello World'' ''l'' 2 = PyInt 2 \<and>
   py_find ''Hello World'' ''l'' = 2"
proof -
  have h: "(2::int) \<le> int (py_count ''Hello World'' ''l'')" by code_simp
  have f: "py_find ''Hello World'' ''l'' = 2" by code_simp
  show ?thesis using h f AT_ignores_occurrence[OF h] by simp
qed

text \<open>
  With no occurrence and \<open>nOccurrence = 0\<close> the result is \<open>-1\<close>, which is not the index
  of an occurrence.
\<close>

theorem AT_no_occurrence_counterexample:
  "(0::int) \<le> int (py_count ''abc'' ''z'') \<and> py_count ''abc'' ''z'' = 0 \<and>
   AT ''abc'' ''z'' 0 = PyInt (- 1)"
  by code_simp

text \<open>
  Claim C10. On a string of length exactly 16, \<open>VAL\<close> returns 0, whatever the string
  contains and whatever \<^verbatim>\<open>isnumeric\<close> and \<^verbatim>\<open>int\<close> do.
\<close>

theorem VAL_length_16:
  assumes "length cExpression = 16"
  shows "VAL isnumeric int_of_str cExpression = Inr (PyInt 0)"
  using assms by (simp add: VAL_def VAL_tail_def Let_def)

theorem VAL_length_16_witness:
  "length ''12345678901234ab'' = 16 \<and>
   VAL py_isnumeric py_int_of_str ''12345678901234ab'' = Inr (PyInt 0)"
proof -
  have h: "length ''12345678901234ab'' = 16" by simp
  show ?thesis using h VAL_length_16[OF h, of py_isnumeric py_int_of_str] by simp
qed

end
